theory Spec2Isabelle
  imports Main "HOL-Library.AList"
begin

section \<open>Strings\<close>

text \<open>
  A Python \<open>str\<close> is modelled as a \<open>string\<close> whose characters are read as the code
  points U+0000 to U+00FF. \<open>isspace\<close> is \<open>str.isspace\<close> on one character of that
  range; it is also the class \<open>\s\<close> of \<open>re\<close> on \<open>str\<close> patterns.
\<close>

definition isspace :: "char \<Rightarrow> bool" where
  "isspace c = (c \<in> set [CHR 0x09, CHR 0x0A, CHR 0x0B, CHR 0x0C, CHR 0x0D,
                           CHR 0x1C, CHR 0x1D, CHR 0x1E, CHR 0x1F, CHR 0x20,
                           CHR 0x85, CHR 0xA0])"

definition lstrip :: "string \<Rightarrow> string" where
  "lstrip s = dropWhile isspace s"

definition rstrip :: "string \<Rightarrow> string" where
  "rstrip s = rev (dropWhile isspace (rev s))"

text \<open>\<open>s.strip()\<close>\<close>

definition strip :: "string \<Rightarrow> string" where
  "strip s = rstrip (lstrip s)"

text \<open>\<open>needle in hay\<close> on two strings.\<close>

primrec py_in :: "string \<Rightarrow> string \<Rightarrow> bool" where
  "py_in needle [] = (needle = [])"
| "py_in needle (c # cs) = (take (length needle) (c # cs) = needle \<or> py_in needle cs)"

section \<open>Cells and the Likert enumeration\<close>

text \<open>
  A cell of a DataFrame built from a grid of strings is a string, or the missing marker
  with which pandas pads a short row (\<open>None\<close> in an object column, whose \<open>str\<close> is
  \<open>None\<close>).
\<close>

datatype cell = Text string | Missing

fun str_cell :: "cell \<Rightarrow> string" where
  "str_cell (Text s) = s"
| "str_cell Missing = ''None''"

definition STAFF_LIKERT_OPTIONS :: "string list" where
  "STAFF_LIKERT_OPTIONS =
     [''Strongly Agree'', ''Agree'', ''Neutral'', ''Disagree'', ''Strongly Disagree'']"

definition CAMPUS_REP_LIKERT_ORDER :: "string list" where
  "CAMPUS_REP_LIKERT_ORDER =
     [''Strongly Agree'', ''Agree'', ''Neutral'', ''Disagree'', ''Strongly Disagree'']"

text \<open>A dict from enumeration value to count, in insertion order.\<close>

type_synonym counts = "(string \<times> nat) list"

text \<open>\<open>{option: 0 for option in STAFF_LIKERT_OPTIONS}\<close>\<close>

definition zero_counts :: counts where
  "zero_counts = map (\<lambda>option. (option, 0)) STAFF_LIKERT_OPTIONS"

text \<open>
  The inner loop of \<open>calculate_likert_counts\<close> over the enumeration, for one trimmed
  string \<open>s\<close>: the first option equal to \<open>s\<close> is incremented and the loop breaks.
  \<open>counts[option] += 1\<close> is \<open>map_entry\<close>: the key is always present, since \<open>counts\<close>
  was built from the same enumeration.
\<close>

fun scan_options :: "string list \<Rightarrow> string \<Rightarrow> counts \<Rightarrow> counts" where
  "scan_options [] s counts = counts"
| "scan_options (option # rest) s counts =
     (if s = option then AList.map_entry option Suc counts
      else scan_options rest s counts)"

text \<open>The body of \<open>for val in df[col]\<close>.\<close>

definition count_val :: "cell \<Rightarrow> counts \<Rightarrow> counts" where
  "count_val val counts = scan_options STAFF_LIKERT_OPTIONS (strip (str_cell val)) counts"

text \<open>The loop \<open>for val in df[col]\<close>, started from the all-zero dict.\<close>

definition count_column :: "cell list \<Rightarrow> counts" where
  "count_column vals = fold count_val vals zero_counts"

text \<open>A cell is a valid response when its trimmed string form is an enumeration value.\<close>

definition valid_cell :: "cell \<Rightarrow> bool" where
  "valid_cell val = (strip (str_cell val) \<in> set STAFF_LIKERT_OPTIONS)"

section \<open>The survey table\<close>

text \<open>
  A DataFrame built by \<open>pd.DataFrame(grid[1:], columns=grid[0])\<close>: the labels in
  column order, and the rows. In a DataFrame every row has the width of the header;
  pandas pads a shorter row of the grid with the missing marker, so a cell beyond the
  end of a row reads as \<open>Missing\<close>. The constructor's refusal of a grid whose widest
  row does not have the width of the header is not modelled. Labels may repeat: pandas
  accepts a repeated label.
\<close>

record dataframe =
  columns :: "string list"
  rows :: "cell list list"

definition cell_at :: "cell list \<Rightarrow> nat \<Rightarrow> cell" where
  "cell_at r j = (if j < length r then r ! j else Missing)"

definition column_at :: "dataframe \<Rightarrow> nat \<Rightarrow> cell list" where
  "column_at df j = map (\<lambda>r. cell_at r j) (rows df)"

text \<open>The positions at which a label occurs.\<close>

definition locs :: "string list \<Rightarrow> string \<Rightarrow> nat list" where
  "locs cols col = filter (\<lambda>j. cols ! j = col) [0..<length cols]"

datatype error =
    KeyError string
  | AttributeError string
  | IndexError
  | NotADirectoryError string
  | Unmodelled string

text \<open>
  \<open>df[col]\<close>: a label that occurs once selects a Series, the cells of that column; a
  label that occurs several times selects a DataFrame of all the columns that carry it
  (kept here as the labels of those columns); an absent label raises \<open>KeyError\<close>.
\<close>

datatype selection = Series "cell list" | Frame "string list"

definition getitem :: "dataframe \<Rightarrow> string \<Rightarrow> error + selection" where
  "getitem df col =
     (case locs (columns df) col of
        [] \<Rightarrow> Inl (KeyError col)
      | [j] \<Rightarrow> Inr (Series (column_at df j))
      | js \<Rightarrow> Inr (Frame (map (\<lambda>j. columns df ! j) js)))"

text \<open>
  \<open>for val in df[col]\<close>: iterating a Series yields its cells; iterating a DataFrame
  yields its column labels.
\<close>

fun iter_selection :: "selection \<Rightarrow> cell list" where
  "iter_selection (Series vals) = vals"
| "iter_selection (Frame labels) = map Text labels"

section \<open>Header normalisation\<close>

text \<open>
  \<open>re.match(r"(.*?)\s*\[(.*?)\]", col)\<close> as the backtracking search it is. The match is
  anchored at the start of the label only. \<open>.\<close> matches every character but the line
  feed; a lazy group tries the rest of the pattern before it takes one more character;
  the greedy \<open>\s*\<close> takes a white-space character first and gives it back on failure.
\<close>

text \<open>\<open>(.*?)\]\<close>, with the characters of the second group taken so far.\<close>

fun match_group2 :: "string \<Rightarrow> string \<Rightarrow> string option" where
  "match_group2 g2 [] = None"
| "match_group2 g2 (c # cs) =
     (if c = CHR '']'' then Some g2
      else if c = CHR 0x0A then None
      else match_group2 (g2 @ [c]) cs)"

text \<open>\<open>\[(.*?)\]\<close>\<close>

definition match_bracket :: "string \<Rightarrow> string option" where
  "match_bracket s =
     (case s of [] \<Rightarrow> None
      | c # cs \<Rightarrow> if c = CHR ''['' then match_group2 [] cs else None)"

text \<open>\<open>\s*\[(.*?)\]\<close>\<close>

fun match_space :: "string \<Rightarrow> string option" where
  "match_space [] = match_bracket []"
| "match_space (c # cs) =
     (if isspace c
      then (case match_space cs of Some g2 \<Rightarrow> Some g2 | None \<Rightarrow> match_bracket (c # cs))
      else match_bracket (c # cs))"

text \<open>The whole pattern, with the characters of the first group taken so far.\<close>

fun match_group1 :: "string \<Rightarrow> string \<Rightarrow> (string \<times> string) option" where
  "match_group1 g1 [] =
     (case match_space [] of Some g2 \<Rightarrow> Some (g1, g2) | None \<Rightarrow> None)"
| "match_group1 g1 (c # cs) =
     (case match_space (c # cs) of
        Some g2 \<Rightarrow> Some (g1, g2)
      | None \<Rightarrow> if c = CHR 0x0A then None else match_group1 (g1 @ [c]) cs)"

definition re_match :: "string \<Rightarrow> (string \<times> string) option" where
  "re_match col = match_group1 [] col"

text \<open>The body of the loop of \<open>clean_column_names\<close>: the label appended for \<open>col\<close>.\<close>

definition clean_label :: "string \<Rightarrow> string" where
  "clean_label col =
     (if CHR ''['' \<in> set col \<and> CHR '']'' \<in> set col
      then (case re_match col of
              Some (staff_name, skill) \<Rightarrow> strip staff_name @ '' - '' @ strip skill
            | None \<Rightarrow> col)
      else col)"

text \<open>The loop \<open>for col in df.columns\<close>, appending to \<open>cleaned_columns\<close>.\<close>

fun clean_loop :: "string list \<Rightarrow> string list \<Rightarrow> string list" where
  "clean_loop [] cleaned_columns = cleaned_columns"
| "clean_loop (col # cols) cleaned_columns =
     clean_loop cols (cleaned_columns @ [clean_label col])"

definition clean_column_names :: "dataframe \<Rightarrow> dataframe" where
  "clean_column_names df = df\<lparr>columns := clean_loop (columns df) []\<rparr>"

section \<open>The staff response counter\<close>

text \<open>
  \<open>s.split(" - ")\<close>: the separator is searched from the left, and an occurrence that is
  found is consumed before the search goes on.
\<close>

function split_sep :: "string \<Rightarrow> string \<Rightarrow> string list" where
  "split_sep piece s =
     (if take 3 s = '' - '' then piece # split_sep [] (drop 3 s)
      else (case s of [] \<Rightarrow> [piece] | c # cs \<Rightarrow> split_sep (piece @ [c]) cs))"
  by pat_completeness auto
termination
proof (relation "measure (\<lambda>(piece, s). length s)", goal_cases)
  case (2 piece s)
  then have "s \<noteq> []" by auto
  then show ?case by simp
qed auto

text \<open>\<open>col.split(" - ")[-1]\<close>; the list that \<open>split\<close> returns is never empty.\<close>

definition skill_of :: "string \<Rightarrow> string" where
  "skill_of col = last (split_sep [] col)"

text \<open>\<open>[col for col in df.columns if staff_name in col]\<close>\<close>

definition staff_columns :: "dataframe \<Rightarrow> string \<Rightarrow> string list" where
  "staff_columns df staff_name = filter (py_in staff_name) (columns df)"

text \<open>
  The loop \<open>for col in staff_columns\<close>. \<open>counts_data[skill] = counts\<close> replaces
  what a key already present maps to and leaves the key where it was, as
  \<open>AList.update\<close> does.
\<close>

type_synonym counts_data = "(string \<times> counts) list"

fun count_columns :: "dataframe \<Rightarrow> string list \<Rightarrow> counts_data \<Rightarrow> error + counts_data" where
  "count_columns df [] counts_data = Inr counts_data"
| "count_columns df (col # cols) counts_data =
     (case getitem df col of
        Inl e \<Rightarrow> Inl e
      | Inr sel \<Rightarrow>
          count_columns df cols
            (AList.update (skill_of col) (count_column (iter_selection sel)) counts_data))"

definition calculate_likert_counts :: "dataframe \<Rightarrow> string \<Rightarrow> error + counts_data" where
  "calculate_likert_counts df staff_name =
     count_columns df (staff_columns df staff_name) []"

section \<open>Ingestion\<close>

text \<open>\<open>str(n)\<close> for an int that is not negative.\<close>

definition digit_char :: "nat \<Rightarrow> char" where
  "digit_char d = char_of (48 + d)"

function str_nat :: "nat \<Rightarrow> string" where
  "str_nat n = (if n < 10 then [digit_char n] else str_nat (n div 10) @ [digit_char (n mod 10)])"
  by pat_completeness auto
termination
  by (relation "measure id") auto

text \<open>
  The header loop of \<open>get_data\<close>: \<open>header_count\<close> is the dict of the headers seen so
  far, \<open>unique_headers\<close> the list built by \<open>append\<close>.
\<close>

fun header_loop :: "string list \<Rightarrow> (string \<times> nat) list \<Rightarrow> string list \<Rightarrow> string list" where
  "header_loop [] header_count unique_headers = unique_headers"
| "header_loop (header # headers) header_count unique_headers =
     (case map_of header_count header of
        Some n \<Rightarrow>
          header_loop headers (AList.update header (n + 1) header_count)
            (unique_headers @ [header @ ''_'' @ str_nat (n + 1)])
      | None \<Rightarrow>
          header_loop headers (AList.update header 0 header_count)
            (unique_headers @ [header]))"

text \<open>
  \<open>get_data\<close> after the fetch: \<open>all_values\<close> is the grid that the sheet returned, a
  list of rows of strings. An empty grid gives the empty DataFrame.
\<close>

definition get_data :: "string list list \<Rightarrow> dataframe" where
  "get_data all_values =
     (case all_values of
        [] \<Rightarrow> \<lparr>columns = [], rows = []\<rparr>
      | headers # data \<Rightarrow>
          \<lparr>columns = header_loop headers [] [], rows = map (map Text) data\<rparr>)"

text \<open>
  \<open>process_staff_evaluation_docx\<close> from the fetched grid \<open>data\<close> to the table handed to
  the report: \<open>None\<close> stands for the branch \<open>if not data\<close>, which reports that no data
  was found and returns; otherwise the table is built from the raw header row and only
  \<open>clean_column_names\<close> is applied to its labels.
\<close>

definition staff_table :: "string list list \<Rightarrow> dataframe option" where
  "staff_table data =
     (case data of
        [] \<Rightarrow> None
      | header # body \<Rightarrow>
          Some (clean_column_names \<lparr>columns = header, rows = map (map Text) body\<rparr>))"

section \<open>The fixed-questionnaire counter\<close>

text \<open>\<open>series.dropna()\<close>, as the strings that remain.\<close>

fun dropna :: "cell list \<Rightarrow> string list" where
  "dropna [] = []"
| "dropna (Text s # vals) = s # dropna vals"
| "dropna (Missing # vals) = dropna vals"

text \<open>
  \<open>responses.value_counts().to_dict()\<close>: a dict from each value that occurs to the
  number of its occurrences. The code only looks keys up in it, so the order of its
  keys (pandas sorts by count) is not modelled.
\<close>

definition value_counts :: "string list \<Rightarrow> (string \<times> nat) list" where
  "value_counts vals =
     fold (\<lambda>v vc. case map_of vc v of
                     None \<Rightarrow> vc @ [(v, 1)]
                   | Some n \<Rightarrow> AList.update v (Suc n) vc) vals []"

text \<open>\<open>d.get(k, default)\<close>\<close>

definition dict_get :: "('k \<times> 'v) list \<Rightarrow> 'k \<Rightarrow> 'v \<Rightarrow> 'v" where
  "dict_get d k dflt = (case map_of d k of None \<Rightarrow> dflt | Some v \<Rightarrow> v)"

text \<open>
  The counts of one question column of \<open>generate_clustered_bar_graph_campus_rep\<close>, one
  per enumeration value in enumeration order: the inner loop
  \<open>for option in CAMPUS_REP_LIKERT_ORDER\<close> on the column's cells.
\<close>

definition question_counts :: "cell list \<Rightarrow> counts" where
  "question_counts vals =
     (let vc = value_counts (dropna vals)
      in map (\<lambda>option. (option, dict_get vc option 0)) CAMPUS_REP_LIKERT_ORDER)"

text \<open>
  The same counts on what \<open>df_staff[col]\<close> selected. Where the label is repeated the
  selection is a frame, whose \<open>value_counts\<close> is keyed by rows and not by strings, so
  that no enumeration value is found in it.
\<close>

fun selection_counts :: "selection \<Rightarrow> counts" where
  "selection_counts (Series vals) = question_counts vals"
| "selection_counts (Frame labels) = map (\<lambda>option. (option, 0)) CAMPUS_REP_LIKERT_ORDER"

section \<open>The fixed-questionnaire report\<close>

text \<open>
  What the code does to the outside is kept in a \<open>world\<close>: the directories and the
  document files on disk, and the messages shown to the operator by \<open>st.error\<close> and
  \<open>st.success\<close>. A document is the list of its blocks in the order in which they
  were added. The chart is kept as the data handed to the plotting calls (title, tick
  labels, one series of counts per enumeration value); its rendering to an image, with
  colours, bar geometry and label wrapping, is not modelled, nor is the styling of the
  table.
\<close>

datatype message = StError string | StSuccess string

datatype par_style = Normal | Caption | ListBullet

record chart =
  chart_title :: string
  xtick_labels :: "string list"
  series :: "(string \<times> nat list) list"

datatype block =
    Heading string nat
  | Picture chart
  | Paragraph string par_style
  | Table "string list list"

type_synonym document = "block list"

record world =
  dirs :: "string list"
  files :: "string \<rightharpoonup> document"
  messages :: "message list"

definition path_exists :: "world \<Rightarrow> string \<Rightarrow> bool" where
  "path_exists w path = (path \<in> set (dirs w) \<or> files w path \<noteq> None)"

text \<open>\<open>os.path.join(folder, name)\<close> on a POSIX system, for a \<open>name\<close> that is relative.\<close>

definition path_join :: "string \<Rightarrow> string \<Rightarrow> string" where
  "path_join folder name =
     (if folder = [] \<or> last folder = CHR ''/'' then folder @ name
      else folder @ ''/'' @ name)"

text \<open>\<open>str.isalnum\<close> on one character of the range U+0000 to U+00FF.\<close>

definition isalnum :: "char \<Rightarrow> bool" where
  "isalnum c =
     (let n = (of_char c :: nat)
      in (48 \<le> n \<and> n \<le> 57) \<or> (65 \<le> n \<and> n \<le> 90) \<or> (97 \<le> n \<and> n \<le> 122)
         \<or> n \<in> set [170, 178, 179, 181, 185, 186, 188, 189, 190]
         \<or> (192 \<le> n \<and> n \<le> 214) \<or> (216 \<le> n \<and> n \<le> 246) \<or> (248 \<le> n \<and> n \<le> 255))"

definition IDENTITY_COLUMN :: string where
  "IDENTITY_COLUMN = ''Name of Campus Representative''"

definition COMMENTS_COLUMN :: string where
  "COMMENTS_COLUMN = ''Comments on Campus Representative Support''"

definition likert_columns :: "string list" where
  "likert_columns =
     [''For each statement below, please select the option that best represents your opinion [My Campus Rep is accessible, respectful, and responsive to my needs for support.]'',
      ''For each statement below, please select the option that best represents your opinion [I have received regular, clear communication from my Campus Rep.]'',
      ''For each statement below, please select the option that best represents your opinion [Reflection sessions (during Saturday trainings, as well as on-campus) with my Campus Rep have been useful.]'',
      ''For each statement below, please select the option that best represents your opinion [I would have liked more time to reflect upon my JusticeCorps experiences with my peers.]'',
      ''For each statement below, please select the option that best represents your opinion [My Campus Rep has been a good resource.]'']"

definition question_labels :: "string list" where
  "question_labels =
     [''Accessible & Responsive'', ''Clear Communication'', ''Useful Reflection Sessions'',
      ''More Peer Reflection Time'', ''Good Resource'']"

text \<open>\<open>df.empty\<close>: one of the two axes has length 0.\<close>

definition empty_df :: "dataframe \<Rightarrow> bool" where
  "empty_df df = (columns df = [] \<or> rows df = [])"

text \<open>
  The loop over \<open>likert_columns\<close> of \<open>generate_clustered_bar_graph_campus_rep\<close>:
  \<open>summary_data\<close> maps each enumeration value to the list of its counts, one per
  question so far; the inner loop appends one count to the list of every value.
\<close>

fun summary_loop ::
  "dataframe \<Rightarrow> string list \<Rightarrow> (string \<times> nat list) list \<Rightarrow> error + (string \<times> nat list) list" where
  "summary_loop df_staff [] summary_data = Inr summary_data"
| "summary_loop df_staff (col # cols) summary_data =
     (case getitem df_staff col of
        Inl e \<Rightarrow> Inl e
      | Inr sel \<Rightarrow>
          summary_loop df_staff cols
            (map (\<lambda>(option, cs). (option, cs @ [dict_get (selection_counts sel) option 0]))
               summary_data))"

text \<open>
  \<open>generate_clustered_bar_graph_campus_rep\<close>, up to the data that is plotted. Without
  labels the questions are named \<open>Q1\<close>, \<open>Q2\<close> and so on. The title names
  \<open>df_staff["Name of Campus Representative"].iloc[0]\<close>, or \<open>Unknown\<close> for an empty
  table. A repeated identity label selects a frame, whose first row is not a cell;
  the model does not follow that path.
\<close>

definition generate_clustered_bar_graph_campus_rep ::
  "dataframe \<Rightarrow> string list \<Rightarrow> string list option \<Rightarrow> error + chart" where
  "generate_clustered_bar_graph_campus_rep df_staff cols given_labels =
     (case summary_loop df_staff cols (map (\<lambda>option. (option, [])) CAMPUS_REP_LIKERT_ORDER) of
        Inl e \<Rightarrow> Inl e
      | Inr summary_data \<Rightarrow>
          (let labels = (case given_labels of
                           None \<Rightarrow> map (\<lambda>i. ''Q'' @ str_nat (i + 1)) [0..<length cols]
                         | Some ls \<Rightarrow> ls);
               mk = (\<lambda>staff_member.
                 Inr \<lparr>chart_title = staff_member @ '' - Likert Scale Response Distribution'',
                      xtick_labels = labels, series = summary_data\<rparr>)
           in if empty_df df_staff then mk ''Unknown''
              else (case getitem df_staff IDENTITY_COLUMN of
                      Inl e \<Rightarrow> Inl e
                    | Inr (Frame _) \<Rightarrow> Inl (Unmodelled IDENTITY_COLUMN)
                    | Inr (Series []) \<Rightarrow> Inl IndexError
                    | Inr (Series (v # _)) \<Rightarrow> mk (str_cell v))))"

text \<open>
  The rows of the summary table below its header: for each question, its label and
  the counts as text, in enumeration order.
\<close>

fun table_rows :: "dataframe \<Rightarrow> (string \<times> string) list \<Rightarrow> error + string list list" where
  "table_rows df_staff [] = Inr []"
| "table_rows df_staff ((col, label) # rest) =
     (case getitem df_staff col of
        Inl e \<Rightarrow> Inl e
      | Inr sel \<Rightarrow>
          (case table_rows df_staff rest of
             Inl e \<Rightarrow> Inl e
           | Inr below \<Rightarrow>
               Inr ((label # map (\<lambda>option. str_nat (dict_get (selection_counts sel) option 0))
                               CAMPUS_REP_LIKERT_ORDER) # below)))"

text \<open>
  The Comments section: \<open>comments = series.dropna().tolist()\<close>, then one bulleted
  paragraph per element of the list, or the placeholder when the list is empty. A
  frame has no \<open>tolist\<close>.
\<close>

definition comments_section :: "dataframe \<Rightarrow> error + block list" where
  "comments_section df_staff =
     (case getitem df_staff COMMENTS_COLUMN of
        Inl e \<Rightarrow> Inl e
      | Inr (Frame _) \<Rightarrow> Inl (AttributeError ''tolist'')
      | Inr (Series vals) \<Rightarrow>
          (let comments = dropna vals
           in if comments \<noteq> []
              then Inr (Heading ''Comments'' 2 # map (\<lambda>comment. Paragraph comment ListBullet) comments)
              else Inr [Heading ''Comments'' 2, Paragraph ''No comments available.'' Normal]))"

text \<open>
  The document that \<open>generate_docx_report\<close> builds between \<open>Document()\<close> and
  \<open>doc.save\<close>, block by block in the order of the calls.
\<close>

definition assemble :: "dataframe \<Rightarrow> string \<Rightarrow> error + document" where
  "assemble df_staff staff_member =
     (case generate_clustered_bar_graph_campus_rep df_staff likert_columns
             (Some question_labels) of
        Inl e \<Rightarrow> Inl e
      | Inr chart_bytes \<Rightarrow>
          (case table_rows df_staff (zip likert_columns question_labels) of
             Inl e \<Rightarrow> Inl e
           | Inr body \<Rightarrow>
               (case comments_section df_staff of
                  Inl e \<Rightarrow> Inl e
                | Inr comments \<Rightarrow>
                    Inr ([Heading (''Campus Rep Report: '' @ staff_member) 1,
                          Picture chart_bytes,
                          Paragraph ''Figure 1: Likert Scale Response Count Distribution'' Caption,
                          Heading ''Response Summary'' 2,
                          Table ((''Question'' # CAMPUS_REP_LIKERT_ORDER) # body)]
                         @ comments))))"

text \<open>
  \<open>generate_docx_report(df, staff_member, output_folder)\<close> in a world \<open>w\<close>: the value
  returned (\<open>None\<close> or the path of the report), or the exception raised, and the world
  afterwards. A repeated identity label makes the row mask a frame; the model does not
  follow pandas there.
\<close>

definition generate_docx_report ::
  "dataframe \<Rightarrow> string \<Rightarrow> string \<Rightarrow> world \<Rightarrow> (error + string option) \<times> world" where
  "generate_docx_report df staff_member output_folder w =
     (let w1 = (if path_exists w output_folder then w
                else w\<lparr>dirs := dirs w @ [output_folder]\<rparr>);
          safe_name = strip (filter (\<lambda>c. isalnum c \<or> c = CHR ''_'') staff_member);
          output_filename =
            path_join output_folder (''campus_rep_report_'' @ safe_name @ ''.docx'')
      in case getitem df IDENTITY_COLUMN of
           Inl e \<Rightarrow> (Inl e, w1)
         | Inr (Frame _) \<Rightarrow> (Inl (Unmodelled IDENTITY_COLUMN), w1)
         | Inr (Series ids) \<Rightarrow>
             (let df_staff =
                    df\<lparr>rows := map fst (filter (\<lambda>(r, v). v = Text staff_member)
                                            (zip (rows df) ids))\<rparr>
              in if empty_df df_staff
                 then (Inr None,
                       w1\<lparr>messages := messages w1 @
                            [StError (''No data available for staff member: '' @ staff_member)]\<rparr>)
                 else (case assemble df_staff staff_member of
                         Inl e \<Rightarrow> (Inl e, w1)
                       | Inr doc \<Rightarrow>
                           if output_folder \<in> set (dirs w1)
                           then (Inr (Some output_filename),
                                 w1\<lparr>files := (files w1)(output_filename \<mapsto> doc),
                                    messages := messages w1 @
                                      [StSuccess (''DOCX report saved as '' @ output_filename)]\<rparr>)
                           else (Inl (NotADirectoryError output_filename), w1))))"

section \<open>Example inputs\<close>

text \<open>
  A fetched sheet of the fixed questionnaire with its seven headers and one respondent
  row, for Alex, whose comment cell is blank; and a world with no file.
\<close>

definition example_sheet :: "string list list" where
  "example_sheet =
     [IDENTITY_COLUMN # likert_columns @ [COMMENTS_COLUMN],
      [''Alex'', ''Agree'', ''Agree'', ''Neutral'', ''Agree'', ''Strongly Agree'', []]]"

definition empty_world :: world where
  "empty_world = \<lparr>dirs = [], files = Map.empty, messages = []\<rparr>"

section \<open>Properties of the per-cell scan\<close>

lemma distinct_options: "distinct STAFF_LIKERT_OPTIONS"
  by (simp add: STAFF_LIKERT_OPTIONS_def)

lemma keys_scan_options: "map fst (scan_options opts s counts) = map fst counts"
proof (induction opts)
  case (Cons a opts)
  have "map fst (AList.map_entry a Suc counts) = map fst counts"
    by (induction counts) auto
  with Cons show ?case by simp
qed simp

lemma map_of_scan_options:
  "map_of (scan_options opts s counts) option =
     (if s \<in> set opts \<and> s = option then map_option Suc (map_of counts option)
      else map_of counts option)"
  by (induction opts) (auto simp: map_of_map_entry split: option.splits)

lemma keys_count_val: "map fst (count_val val counts) = map fst counts"
  by (simp add: count_val_def keys_scan_options)

lemma map_of_count_val:
  "option \<in> set STAFF_LIKERT_OPTIONS \<Longrightarrow>
   map_of (count_val val counts) option =
     (if strip (str_cell val) = option then map_option Suc (map_of counts option)
      else map_of counts option)"
  by (auto simp: count_val_def map_of_scan_options)

lemma count_val_invalid: "\<not> valid_cell val \<Longrightarrow> count_val val counts = counts"
proof -
  have "s \<notin> set opts \<Longrightarrow> scan_options opts s counts = counts" for opts s
    by (induction opts) auto
  then show "\<not> valid_cell val \<Longrightarrow> count_val val counts = counts"
    by (simp add: count_val_def valid_cell_def)
qed

lemma keys_fold_count_val: "map fst (fold count_val vals counts) = map fst counts"
  by (induction vals arbitrary: counts) (auto simp: keys_count_val)

lemma map_of_fold_count_val:
  "option \<in> set STAFF_LIKERT_OPTIONS \<Longrightarrow>
   map_of (fold count_val vals counts) option =
     map_option (\<lambda>n. n + length (filter (\<lambda>v. strip (str_cell v) = option) vals))
       (map_of counts option)"
proof (induction vals arbitrary: counts)
  case Nil
  then show ?case by (simp add: option.map_ident)
next
  case (Cons v vals)
  then show ?case
    by (simp add: map_of_count_val option.map_comp comp_def)
qed

lemma map_of_zero_counts:
  "option \<in> set STAFF_LIKERT_OPTIONS \<Longrightarrow> map_of zero_counts option = Some 0"
  by (simp add: zero_counts_def map_of_map_restrict)

lemma alist_by_keys:
  "distinct (map fst xs) \<Longrightarrow> xs = map (\<lambda>k. (k, the (map_of xs k))) (map fst xs)"
proof (induction xs)
  case (Cons p xs)
  obtain a b where p: "p = (a, b)" by (cases p)
  from Cons.prems p have a: "a \<notin> set (map fst xs)" and d: "distinct (map fst xs)"
    by auto
  have "map (\<lambda>k. (k, the (map_of (p # xs) k))) (map fst xs)
           = map (\<lambda>k. (k, the (map_of xs k))) (map fst xs)"
    using a by (intro map_cong) (auto simp: p)
  with Cons.IH [OF d] show ?case by (simp add: p)
qed simp

lemma count_column_closed:
  "count_column vals =
     map (\<lambda>option. (option, length (filter (\<lambda>v. strip (str_cell v) = option) vals)))
       STAFF_LIKERT_OPTIONS"
proof -
  have k: "map fst (count_column vals) = STAFF_LIKERT_OPTIONS"
    by (simp add: count_column_def keys_fold_count_val zero_counts_def comp_def)
  have "count_column vals =
     map (\<lambda>k. (k, the (map_of (count_column vals) k))) (map fst (count_column vals))"
    by (rule alist_by_keys) (simp add: k distinct_options)
  also have "\<dots> = map (\<lambda>k. (k, the (map_of (count_column vals) k))) STAFF_LIKERT_OPTIONS"
    by (simp add: k)
  also have "\<dots> = map (\<lambda>option. (option, length (filter (\<lambda>v. strip (str_cell v) = option) vals)))
       STAFF_LIKERT_OPTIONS"
    by (rule map_cong) (simp_all add: count_column_def map_of_fold_count_val map_of_zero_counts)
  finally show ?thesis .
qed

lemma strip_eval_simps:
  "strip s = rev (dropWhile isspace (rev (dropWhile isspace s)))"
  by (simp add: strip_def lstrip_def rstrip_def)



section \<open>Properties of the staff response counter\<close>


lemma locs_Cons:
  "locs (x # xs) col = (if x = col then 0 # map Suc (locs xs col) else map Suc (locs xs col))"
proof -
  have u: "[0..<Suc (length xs)] = 0 # map Suc [0..<length xs]"
    by (simp add: upt_conv_Cons map_Suc_upt del: upt_Suc)
  show ?thesis
    unfolding locs_def by (simp add: u filter_map comp_def del: upt_Suc)
qed

lemma locs_Nil: "locs [] col = []"
  by (simp add: locs_def)

lemma locs_member: "j \<in> set (locs cols col) \<Longrightarrow> j < length cols \<and> cols ! j = col"
  by (auto simp: locs_def)

lemma length_locs: "length (locs cols col) = count_list cols col"
  by (induction cols) (simp_all add: locs_Nil locs_Cons)

lemma locs_nonempty: "col \<in> set cols \<Longrightarrow> locs cols col \<noteq> []"
  using length_locs [of cols col] count_list_0_iff [of cols col] by auto

lemma count_list_filter_distinct:
  "distinct (filter P cols) \<Longrightarrow> P col \<Longrightarrow> count_list cols col \<le> 1"
proof (induction cols)
  case (Cons a cols)
  show ?case
  proof (cases "a = col")
    case True
    with Cons.prems have "col \<notin> set cols" by auto
    then have "count_list cols col = 0" by (simp add: count_list_0_iff)
    with True show ?thesis by simp
  next
    case False
    with Cons show ?thesis by (auto split: if_splits)
  qed
qed simp

lemma locs_single:
  assumes "distinct (filter P cols)" "P col" "col \<in> set cols"
  shows "\<exists>j. locs cols col = [j] \<and> j < length cols \<and> cols ! j = col"
proof -
  have "length (locs cols col) \<le> 1"
    using count_list_filter_distinct [OF assms(1,2)] by (simp add: length_locs)
  moreover have "locs cols col \<noteq> []" by (rule locs_nonempty [OF assms(3)])
  ultimately obtain j where j: "locs cols col = [j]"
    by (cases "locs cols col") auto
  then have "j \<in> set (locs cols col)" by simp
  from locs_member [OF this] j show ?thesis by blast
qed

lemma getitem_present:
  "col \<in> set (columns df) \<Longrightarrow> \<exists>sel. getitem df col = Inr sel"
  using locs_nonempty [of col "columns df"]
  by (auto simp: getitem_def split: list.splits)

lemma getitem_single:
  assumes "distinct (filter P (columns df))" "P col" "col \<in> set (columns df)"
  shows "\<exists>j<length (columns df). columns df ! j = col \<and> getitem df col = Inr (Series (column_at df j))"
  using locs_single [OF assms] by (auto simp: getitem_def)


lemma count_columns_append:
  "count_columns df (xs @ ys) acc =
     (case count_columns df xs acc of Inl e \<Rightarrow> Inl e | Inr a \<Rightarrow> count_columns df ys a)"
  by (induction xs arbitrary: acc) (auto split: sum.splits)

lemma count_columns_ok:
  "set cols \<subseteq> set (columns df) \<Longrightarrow> \<exists>r. count_columns df cols acc = Inr r"
proof (induction cols arbitrary: acc)
  case (Cons col cols)
  from Cons.prems obtain sel where "getitem df col = Inr sel"
    using getitem_present [of col df] by auto
  with Cons show ?case by simp
qed simp

lemma in_set_update:
  "p \<in> set (AList.update k v al) \<Longrightarrow> p = (k, v) \<or> p \<in> set al"
  by (induction al) (auto split: if_splits)

lemma count_columns_entries:
  "count_columns df cols acc = Inr r \<Longrightarrow> (k, v) \<in> set r \<Longrightarrow>
   (k, v) \<in> set acc \<or>
   (\<exists>col \<in> set cols. \<exists>sel. getitem df col = Inr sel \<and> k = skill_of col
        \<and> v = count_column (iter_selection sel))"
proof (induction cols arbitrary: acc)
  case (Cons col cols)
  from Cons.prems(1) obtain sel where sel: "getitem df col = Inr sel"
    and rest: "count_columns df cols
                 (AList.update (skill_of col) (count_column (iter_selection sel)) acc) = Inr r"
    by (auto split: sum.splits)
  from Cons.IH [OF rest Cons.prems(2)] show ?case
  proof
    assume "(k, v) \<in> set (AList.update (skill_of col) (count_column (iter_selection sel)) acc)"
    from in_set_update [OF this] sel show ?thesis by auto
  next
    assume "\<exists>col\<in>set cols. \<exists>sel. getitem df col = Inr sel \<and> k = skill_of col
              \<and> v = count_column (iter_selection sel)"
    then show ?thesis by auto
  qed
qed simp

lemma count_columns_distinct_keys:
  "count_columns df cols acc = Inr r \<Longrightarrow> distinct (map fst acc) \<Longrightarrow> distinct (map fst r)"
proof (induction cols arbitrary: acc)
  case (Cons col cols)
  from Cons.prems(1) obtain sel where
    rest: "count_columns df cols
             (AList.update (skill_of col) (count_column (iter_selection sel)) acc) = Inr r"
    by (auto split: sum.splits)
  show ?case
    by (rule Cons.IH [OF rest]) (simp add: distinct_update Cons.prems(2))
qed simp

lemma count_columns_other_keys:
  "count_columns df cols acc = Inr r \<Longrightarrow> \<forall>c \<in> set cols. skill_of c \<noteq> k \<Longrightarrow>
   map_of r k = map_of acc k"
proof (induction cols arbitrary: acc)
  case (Cons col cols)
  from Cons.prems(1) obtain sel where
    rest: "count_columns df cols
             (AList.update (skill_of col) (count_column (iter_selection sel)) acc) = Inr r"
    by (auto split: sum.splits)
  from Cons.prems(2) have "\<forall>c \<in> set cols. skill_of c \<noteq> k" and "skill_of col \<noteq> k" by auto
  with Cons.IH [OF rest] show ?case by (simp add: update_conv')
qed simp

lemma count_columns_last:
  assumes "count_columns df (pre @ col # post) acc = Inr r"
    and "\<forall>c \<in> set post. skill_of c \<noteq> skill_of col"
    and "getitem df col = Inr sel"
  shows "map_of r (skill_of col) = Some (count_column (iter_selection sel))"
proof -
  from assms(1) obtain a where a: "count_columns df pre acc = Inr a"
    and rest: "count_columns df (col # post) a = Inr r"
    by (auto simp: count_columns_append split: sum.splits)
  from rest assms(3) have
    "count_columns df post
       (AList.update (skill_of col) (count_column (iter_selection sel)) a) = Inr r"
    by simp
  from count_columns_other_keys [OF this assms(2)] show ?thesis
    by (simp add: update_conv')
qed

lemma staff_columns_split:
  assumes "j < length cols"
  shows "filter P cols = filter P (take j cols) @ filter P [cols ! j] @ filter P (drop (Suc j) cols)"
proof -
  have "cols = take j cols @ [cols ! j] @ drop (Suc j) cols"
    using assms by (simp add: id_take_nth_drop)
  then have "filter P cols = filter P (take j cols @ [cols ! j] @ drop (Suc j) cols)"
    by simp
  then show ?thesis by (simp only: filter_append)
qed

lemma in_set_drop_nth:
  "c \<in> set (drop n xs) \<Longrightarrow> \<exists>k. n \<le> k \<and> k < length xs \<and> xs ! k = c"
  by (auto simp: in_set_conv_nth) (metis add.commute le_add1 less_diff_conv)


lemma length_filter_disjoint:
  "(\<And>v. \<not> (P v \<and> Q v)) \<Longrightarrow>
   length (filter P vals) + length (filter Q vals) = length (filter (\<lambda>v. P v \<or> Q v) vals)"
  by (induction vals) auto

lemma sum_counts_by_option:
  "distinct opts \<Longrightarrow>
   (\<Sum>option\<leftarrow>opts. length (filter (\<lambda>v. f v = option) vals))
     = length (filter (\<lambda>v. f v \<in> set opts) vals)"
proof (induction opts)
  case (Cons a opts)
  then have d: "\<And>v. \<not> (f v = a \<and> f v \<in> set opts)" by auto
  from Cons have "(\<Sum>option\<leftarrow>a # opts. length (filter (\<lambda>v. f v = option) vals))
      = length (filter (\<lambda>v. f v = a) vals) + length (filter (\<lambda>v. f v \<in> set opts) vals)"
    by simp
  also have "\<dots> = length (filter (\<lambda>v. f v = a \<or> f v \<in> set opts) vals)"
    by (rule length_filter_disjoint [OF d])
  finally show ?case by simp
qed simp

lemma sum_count_column:
  "sum_list (map snd (count_column vals)) = length (filter valid_cell vals)"
proof -
  have "sum_list (map snd (count_column vals))
      = (\<Sum>option\<leftarrow>STAFF_LIKERT_OPTIONS.
            length (filter (\<lambda>v. strip (str_cell v) = option) vals))"
    by (simp add: count_column_closed comp_def)
  also have "\<dots> = length (filter (\<lambda>v. strip (str_cell v) \<in> set STAFF_LIKERT_OPTIONS) vals)"
    by (rule sum_counts_by_option [OF distinct_options])
  also have "\<dots> = length (filter valid_cell vals)"
    by (rule arg_cong [where f = length], rule filter_cong) (simp_all add: valid_cell_def)
  finally show ?thesis .
qed

lemma map_entry_distinct:
  "distinct (map fst xs) \<Longrightarrow>
   AList.map_entry k f xs = map (\<lambda>(a, n). (a, if a = k then f n else n)) xs"
proof (induction xs)
  case (Cons p xs)
  obtain a n where p: "p = (a, n)" by (cases p)
  show ?case
  proof (cases "a = k")
    case True
    with Cons.prems p have "k \<notin> fst ` set xs" by auto
    then have "map (\<lambda>(a, n). (a, if a = k then f n else n)) xs = xs"
      by (intro map_idI) (auto simp: image_iff)
    with True p show ?thesis by simp
  next
    case False
    with Cons p show ?thesis by simp
  qed
qed simp

lemma scan_options_closed:
  "distinct (map fst counts) \<Longrightarrow> s \<in> set opts \<Longrightarrow>
   scan_options opts s counts = map (\<lambda>(a, n). (a, if a = s then Suc n else n)) counts"
  by (induction opts) (auto simp: map_entry_distinct)

lemma count_val_valid:
  assumes "map fst counts = STAFF_LIKERT_OPTIONS" "valid_cell val"
  shows "count_val val counts =
           map (\<lambda>(option, n). (option, if option = strip (str_cell val) then Suc n else n)) counts"
  using assms distinct_options
  by (simp add: count_val_def valid_cell_def scan_options_closed)

lemma sum_one_slot:
  "distinct (map fst counts) \<Longrightarrow> s \<in> set (map fst counts) \<Longrightarrow>
   sum_list (map snd (map (\<lambda>(a, n). (a, if a = s then Suc n else n)) counts))
     = Suc (sum_list (map snd counts))"
proof (induction counts)
  case (Cons p counts)
  obtain a n where p: "p = (a, n)" by (cases p)
  show ?case
  proof (cases "a = s")
    case True
    with Cons.prems p have "s \<notin> fst ` set counts" by auto
    then have "map (\<lambda>(a, n). (a, if a = s then Suc n else n)) counts = counts"
      by (intro map_idI) (auto simp: image_iff)
    with True p show ?thesis by simp
  next
    case False
    with Cons p show ?thesis by auto
  qed
qed simp

lemma sum_count_val_valid:
  assumes "map fst counts = STAFF_LIKERT_OPTIONS" "valid_cell val"
  shows "sum_list (map snd (count_val val counts)) = Suc (sum_list (map snd counts))"
proof -
  have "strip (str_cell val) \<in> set (map fst counts)"
    using assms by (simp add: valid_cell_def)
  moreover have "distinct (map fst counts)" using assms distinct_options by simp
  ultimately show ?thesis
    unfolding count_val_valid [OF assms] by (rule sum_one_slot [rotated])
qed



lemma staff_columns_subset: "set (staff_columns df staff_name) \<subseteq> set (columns df)"
  by (auto simp: staff_columns_def)

lemma calculate_likert_counts_returns:
  "\<exists>counts_data. calculate_likert_counts df staff_name = Inr counts_data"
  unfolding calculate_likert_counts_def
  by (rule count_columns_ok [OF staff_columns_subset])

text \<open>
  C1, as amended. For every survey table and subject such that the labels of the
  columns matched by the subject are pairwise distinct, \<open>calculate_likert_counts\<close>
  returns a mapping, and every metric of that mapping carries the counts of one column:
  the last matched column with that metric name. For each enumeration value the count is
  the number of cells of that column whose trimmed string form equals the value, and
  the sum of the five counts is the number of valid cells of the column. In the row
  loop, on counts keyed by the enumeration, a valid cell raises the one slot equal to
  its trimmed form by one (so the sum grows by one), and a cell that equals no
  enumeration value leaves the counts as they are.
\<close>

theorem likert_counts_sum_valid_cells:
  assumes "distinct (staff_columns df staff_name)"
  shows "(\<exists>counts_data. calculate_likert_counts df staff_name = Inr counts_data \<and>
           (\<forall>(skill, counts) \<in> set counts_data.
              \<exists>pre col post j.
                staff_columns df staff_name = pre @ col # post \<and> skill_of col = skill \<and>
                (\<forall>c \<in> set post. skill_of c \<noteq> skill) \<and>
                j < length (columns df) \<and> columns df ! j = col \<and>
                counts = map (\<lambda>option.
                            (option, length (filter (\<lambda>val. strip (str_cell val) = option)
                                               (column_at df j))))
                           STAFF_LIKERT_OPTIONS \<and>
                sum_list (map snd counts) = length (filter valid_cell (column_at df j))))
       \<and> (\<forall>val counts. map fst counts = STAFF_LIKERT_OPTIONS \<longrightarrow>
            (valid_cell val \<longrightarrow>
               count_val val counts =
                 map (\<lambda>(option, n). (option, if option = strip (str_cell val) then Suc n else n))
                   counts \<and>
               sum_list (map snd (count_val val counts)) = Suc (sum_list (map snd counts))) \<and>
            (\<not> valid_cell val \<longrightarrow> count_val val counts = counts))"
proof (intro conjI allI impI)
  obtain r where r: "calculate_likert_counts df staff_name = Inr r"
    using calculate_likert_counts_returns by blast
  let ?cols = "staff_columns df staff_name"
  from r have cc: "count_columns df ?cols [] = Inr r"
    by (simp add: calculate_likert_counts_def)
  have d: "distinct (map fst r)"
    by (rule count_columns_distinct_keys [OF cc]) simp
  have "\<exists>pre col post j.
          ?cols = pre @ col # post \<and> skill_of col = k \<and>
          (\<forall>c \<in> set post. skill_of c \<noteq> k) \<and>
          j < length (columns df) \<and> columns df ! j = col \<and>
          v = map (\<lambda>option.
                      (option, length (filter (\<lambda>val. strip (str_cell val) = option)
                                         (column_at df j))))
                  STAFF_LIKERT_OPTIONS \<and>
          sum_list (map snd v) = length (filter valid_cell (column_at df j))"
    if kv: "(k, v) \<in> set r" for k v
  proof -
    from count_columns_entries [OF cc kv]
    have "\<exists>c \<in> set ?cols. skill_of c = k" by auto
    from split_list_last_prop [OF this]
    obtain pre col post where sp: "?cols = pre @ col # post" and sk: "skill_of col = k"
      and post: "\<forall>c \<in> set post. skill_of c \<noteq> k"
      by blast
    from sp have "col \<in> set ?cols" by simp
    then have p: "py_in staff_name col" and m: "col \<in> set (columns df)"
      by (auto simp: staff_columns_def)
    from assms have "distinct (filter (py_in staff_name) (columns df))"
      by (simp add: staff_columns_def)
    from getitem_single [OF this p m]
    obtain j where j: "j < length (columns df)" "columns df ! j = col"
      and g: "getitem df col = Inr (Series (column_at df j))"
      by blast
    from cc sp have "count_columns df (pre @ col # post) [] = Inr r" by simp
    from count_columns_last [OF this _ g] post sk
    have "map_of r k = Some (count_column (column_at df j))" by simp
    moreover from d kv have "map_of r k = Some v" by simp
    ultimately have v: "v = count_column (column_at df j)" by simp
    show ?thesis
      using sp sk post j v count_column_closed [of "column_at df j"]
        sum_count_column [of "column_at df j"]
      by (intro exI conjI) simp_all
  qed
  with r show "\<exists>counts_data. calculate_likert_counts df staff_name = Inr counts_data \<and>
           (\<forall>(skill, counts) \<in> set counts_data.
              \<exists>pre col post j.
                staff_columns df staff_name = pre @ col # post \<and> skill_of col = skill \<and>
                (\<forall>c \<in> set post. skill_of c \<noteq> skill) \<and>
                j < length (columns df) \<and> columns df ! j = col \<and>
                counts = map (\<lambda>option.
                            (option, length (filter (\<lambda>val. strip (str_cell val) = option)
                                               (column_at df j))))
                           STAFF_LIKERT_OPTIONS \<and>
                sum_list (map snd counts) = length (filter valid_cell (column_at df j)))"
    by blast
next
  fix val and counts :: counts
  assume "map fst counts = STAFF_LIKERT_OPTIONS" "valid_cell val"
  then show "count_val val counts =
                 map (\<lambda>(option, n). (option, if option = strip (str_cell val) then Suc n else n))
                   counts"
    by (rule count_val_valid)
next
  fix val and counts :: counts
  assume "map fst counts = STAFF_LIKERT_OPTIONS" "valid_cell val"
  then show "sum_list (map snd (count_val val counts)) = Suc (sum_list (map snd counts))"
    by (rule sum_count_val_valid)
next
  fix val and counts :: counts
  assume "\<not> valid_cell val"
  then show "count_val val counts = counts" by (rule count_val_invalid)
qed


lemma getitem_at:
  assumes "distinct (filter P (columns df))" "j < length (columns df)" "P (columns df ! j)"
  shows "getitem df (columns df ! j) = Inr (Series (column_at df j))"
proof -
  have m: "columns df ! j \<in> set (columns df)" using assms(2) by simp
  from locs_single [OF assms(1,3) m]
  obtain i where i: "locs (columns df) (columns df ! j) = [i]" by blast
  have "j \<in> set (locs (columns df) (columns df ! j))"
    using assms(2) by (simp add: locs_def)
  with i have "i = j" by simp
  with i show ?thesis by (simp add: getitem_def)
qed

text \<open>
  The theorem at the table of the specification's scenario A: two columns of Alice,
  three rows.
\<close>

theorem likert_counts_sum_valid_cells_witness:
  "distinct (staff_columns
      \<lparr>columns = [''Alice - Communication'', ''Alice - Punctuality''],
       rows = [[Text ''Strongly Agree'', Text ''late''],
               [Text ''Agree'', Text '' Agree ''],
               [Text ''Strongly Agree'', Text []]]\<rparr> ''Alice'')
   \<and> calculate_likert_counts
      \<lparr>columns = [''Alice - Communication'', ''Alice - Punctuality''],
       rows = [[Text ''Strongly Agree'', Text ''late''],
               [Text ''Agree'', Text '' Agree ''],
               [Text ''Strongly Agree'', Text []]]\<rparr> ''Alice''
     = Inr [(''Communication'',
              [(''Strongly Agree'', 2), (''Agree'', 1), (''Neutral'', 0), (''Disagree'', 0),
               (''Strongly Disagree'', 0)]),
            (''Punctuality'',
              [(''Strongly Agree'', 0), (''Agree'', 1), (''Neutral'', 0), (''Disagree'', 0),
               (''Strongly Disagree'', 0)])]"
proof -
  let ?df = "\<lparr>columns = [''Alice - Communication'', ''Alice - Punctuality''],
       rows = [[Text ''Strongly Agree'', Text ''late''],
               [Text ''Agree'', Text '' Agree ''],
               [Text ''Strongly Agree'', Text []]]\<rparr>"
  have h: "distinct (staff_columns ?df ''Alice'')" by code_simp
  have e: "calculate_likert_counts ?df ''Alice''
     = Inr [(''Communication'',
              [(''Strongly Agree'', 2), (''Agree'', 1), (''Neutral'', 0), (''Disagree'', 0),
               (''Strongly Disagree'', 0)]),
            (''Punctuality'',
              [(''Strongly Agree'', 0), (''Agree'', 1), (''Neutral'', 0), (''Disagree'', 0),
               (''Strongly Disagree'', 0)])]" by code_simp
  from likert_counts_sum_valid_cells [OF h] h e show ?thesis by blast
qed

text \<open>
  C1 as stated fails in two ways. When two matched columns with different labels share
  a metric name, the counts of the first are replaced by those of the second: the valid
  cell of the column \<open>Alice - Comm\<close> is in no count of the returned mapping. When a
  matched label is repeated, \<open>df[col]\<close> selects a frame, the loop runs over the frame's
  labels instead of the cells, and the counts of the metric sum to 0 although each of
  the two columns holds one valid cell.
\<close>

theorem likert_counts_repeated_label_counterexample:
  "calculate_likert_counts
      \<lparr>columns = [''Alice - Comm'', ''Alice Smith - Comm''],
       rows = [[Text ''Agree'', Text ''n/a'']]\<rparr> ''Alice''
     = Inr [(''Comm'',
              [(''Strongly Agree'', 0), (''Agree'', 0), (''Neutral'', 0), (''Disagree'', 0),
               (''Strongly Disagree'', 0)])]
   \<and> filter valid_cell (column_at
        \<lparr>columns = [''Alice - Comm'', ''Alice Smith - Comm''],
         rows = [[Text ''Agree'', Text ''n/a'']]\<rparr> 0) = [Text ''Agree'']
   \<and> calculate_likert_counts
      \<lparr>columns = [''Alice - Comm'', ''Alice - Comm''],
       rows = [[Text ''Agree'', Text ''Agree'']]\<rparr> ''Alice''
     = Inr [(''Comm'',
              [(''Strongly Agree'', 0), (''Agree'', 0), (''Neutral'', 0), (''Disagree'', 0),
               (''Strongly Disagree'', 0)])]
   \<and> filter valid_cell (column_at
        \<lparr>columns = [''Alice - Comm'', ''Alice - Comm''],
         rows = [[Text ''Agree'', Text ''Agree'']]\<rparr> 0) = [Text ''Agree'']
   \<and> filter valid_cell (column_at
        \<lparr>columns = [''Alice - Comm'', ''Alice - Comm''],
         rows = [[Text ''Agree'', Text ''Agree'']]\<rparr> 1) = [Text ''Agree'']"
  by code_simp




text \<open>
  C10, as amended. When the labels of the columns matched by the subject are pairwise
  distinct, the returned mapping has one entry per metric name, and the entry of a
  metric name holds the counts of the last matched column, in column order, that
  carries this metric name (the last element of the label split at \<open>" - "\<close>): the
  counts of earlier matched columns with the same metric name are not in the mapping.
\<close>

theorem likert_counts_last_column_wins:
  assumes "distinct (staff_columns df staff_name)"
    and "j < length (columns df)"
    and "py_in staff_name (columns df ! j)"
    and "\<forall>k. j < k \<and> k < length (columns df) \<and> py_in staff_name (columns df ! k)
           \<longrightarrow> skill_of (columns df ! k) \<noteq> skill_of (columns df ! j)"
  shows "\<exists>counts_data. calculate_likert_counts df staff_name = Inr counts_data
           \<and> distinct (map fst counts_data)
           \<and> map_of counts_data (skill_of (columns df ! j))
               = Some (count_column (column_at df j))"
proof -
  let ?P = "py_in staff_name" and ?cols = "columns df"
  obtain r where r: "calculate_likert_counts df staff_name = Inr r"
    using calculate_likert_counts_returns by blast
  then have cc: "count_columns df (filter ?P ?cols) [] = Inr r"
    by (simp add: calculate_likert_counts_def staff_columns_def)
  have d: "distinct (map fst r)"
    by (rule count_columns_distinct_keys [OF cc]) simp
  from assms(1) have dist: "distinct (filter ?P ?cols)"
    by (simp add: staff_columns_def)
  have g: "getitem df (?cols ! j) = Inr (Series (column_at df j))"
    by (rule getitem_at [OF dist assms(2,3)])
  let ?pre = "filter ?P (take j ?cols)" and ?post = "filter ?P (drop (Suc j) ?cols)"
  have sp: "filter ?P ?cols = ?pre @ (?cols ! j) # ?post"
    using staff_columns_split [OF assms(2), of ?P] assms(3) by simp
  have post: "\<forall>c \<in> set ?post. skill_of c \<noteq> skill_of (?cols ! j)"
  proof
    fix c assume c: "c \<in> set ?post"
    then have "c \<in> set (drop (Suc j) ?cols)" and pc: "?P c" by auto
    from in_set_drop_nth [OF this(1)]
    obtain k where "Suc j \<le> k" "k < length ?cols" "?cols ! k = c" by blast
    with assms(4) pc show "skill_of c \<noteq> skill_of (?cols ! j)" by auto
  qed
  from cc sp have "count_columns df (?pre @ (?cols ! j) # ?post) [] = Inr r" by simp
  from count_columns_last [OF this post g]
  have "map_of r (skill_of (?cols ! j)) = Some (count_column (column_at df j))" by simp
  with r d show ?thesis by blast
qed

text \<open>
  The theorem at a table in which two columns matched by Alice share the metric name
  \<open>Comm\<close>: the mapping holds the counts of the second one only.
\<close>

theorem likert_counts_last_column_wins_witness:
  "distinct (staff_columns
      \<lparr>columns = [''Alice - Comm'', ''Timestamp'', ''Alice Smith - Comm''],
       rows = [[Text ''Agree'', Text ''9:00'', Text ''Neutral'']]\<rparr> ''Alice'')
   \<and> py_in ''Alice'' ''Alice - Comm'' \<and> py_in ''Alice'' ''Alice Smith - Comm''
   \<and> skill_of ''Alice - Comm'' = ''Comm'' \<and> skill_of ''Alice Smith - Comm'' = ''Comm''
   \<and> calculate_likert_counts
      \<lparr>columns = [''Alice - Comm'', ''Timestamp'', ''Alice Smith - Comm''],
       rows = [[Text ''Agree'', Text ''9:00'', Text ''Neutral'']]\<rparr> ''Alice''
     = Inr [(''Comm'',
              [(''Strongly Agree'', 0), (''Agree'', 0), (''Neutral'', 1), (''Disagree'', 0),
               (''Strongly Disagree'', 0)])]"
proof -
  let ?df = "\<lparr>columns = [''Alice - Comm'', ''Timestamp'', ''Alice Smith - Comm''],
       rows = [[Text ''Agree'', Text ''9:00'', Text ''Neutral'']]\<rparr>"
  have h1: "distinct (staff_columns ?df ''Alice'')" by code_simp
  have h2: "2 < length (columns ?df)" by simp
  have h3: "py_in ''Alice'' (columns ?df ! 2)" by code_simp
  have h4: "\<forall>k. 2 < k \<and> k < length (columns ?df) \<and> py_in ''Alice'' (columns ?df ! k)
           \<longrightarrow> skill_of (columns ?df ! k) \<noteq> skill_of (columns ?df ! 2)"
  proof (intro allI impI)
    fix k
    assume "2 < k \<and> k < length (columns ?df) \<and> py_in ''Alice'' (columns ?df ! k)"
    then have "2 < k" and "k < Suc (Suc (Suc 0))" by simp_all
    then have False by arith
    then show "skill_of (columns ?df ! k) \<noteq> skill_of (columns ?df ! 2)" ..
  qed
  have p: "py_in ''Alice'' ''Alice - Comm''" "py_in ''Alice'' ''Alice Smith - Comm''"
    by code_simp+
  have k: "skill_of ''Alice - Comm'' = ''Comm''" "skill_of ''Alice Smith - Comm'' = ''Comm''"
    by code_simp+
  have e: "calculate_likert_counts ?df ''Alice''
     = Inr [(''Comm'',
              [(''Strongly Agree'', 0), (''Agree'', 0), (''Neutral'', 1), (''Disagree'', 0),
               (''Strongly Disagree'', 0)])]"
    by code_simp
  from likert_counts_last_column_wins [OF h1 h2 h3 h4] h1 p k e show ?thesis by blast
qed

text \<open>
  C10 as stated fails in two ways. The metric name is the last element of the label
  split at \<open>" - "\<close>, and \<open>split\<close> consumes a separator before it searches on: in
  \<open>A - - b\<close> the text after the last occurrence of \<open>" - "\<close> is \<open>b\<close>, the metric name
  is \<open>- b\<close>. When the two columns that share a metric name carry the same label, the
  mapping holds all-zero counts for the metric, not the counts of the last column, in
  which \<open>Neutral\<close> occurs once.
\<close>

theorem last_column_repeated_label_counterexample:
  "skill_of ''A - - b'' = ''- b''
   \<and> calculate_likert_counts
      \<lparr>columns = [''Alice - Comm'', ''Alice - Comm''],
       rows = [[Text ''Agree'', Text ''Neutral'']]\<rparr> ''Alice''
     = Inr [(''Comm'',
              [(''Strongly Agree'', 0), (''Agree'', 0), (''Neutral'', 0), (''Disagree'', 0),
               (''Strongly Disagree'', 0)])]
   \<and> count_column (column_at
        \<lparr>columns = [''Alice - Comm'', ''Alice - Comm''],
         rows = [[Text ''Agree'', Text ''Neutral'']]\<rparr> 1)
     = [(''Strongly Agree'', 0), (''Agree'', 0), (''Neutral'', 1), (''Disagree'', 0),
        (''Strongly Disagree'', 0)]"
  by code_simp

section \<open>The two counters compared\<close>


lemma dict_get_value_counts_step:
  "dict_get (case map_of vc v of
               None \<Rightarrow> vc @ [(v, 1)]
             | Some n \<Rightarrow> AList.update v (Suc n) vc) k 0
   = dict_get vc k 0 + (if v = k then 1 else 0)"
  by (cases "map_of vc v")
     (auto simp: dict_get_def update_conv' map_add_def split: option.splits)

lemma dict_get_value_counts_fold:
  "dict_get (fold (\<lambda>v vc. case map_of vc v of
                     None \<Rightarrow> vc @ [(v, 1)]
                   | Some n \<Rightarrow> AList.update v (Suc n) vc) vals vc) k 0
   = dict_get vc k 0 + count_list vals k"
proof (induction vals arbitrary: vc)
  case (Cons v vals)
  show ?case
    by (simp only: fold_simps Cons.IH dict_get_value_counts_step count_list.simps)
       simp
qed simp

lemma dict_get_value_counts: "dict_get (value_counts vals) k 0 = count_list vals k"
  by (simp add: value_counts_def dict_get_value_counts_fold) (simp add: dict_get_def)

lemma count_list_dropna:
  "count_list (dropna vals) s = length (filter (\<lambda>v. v = Text s) vals)"
  by (induction vals rule: dropna.induct) auto

lemma question_counts_closed:
  "question_counts vals =
     map (\<lambda>option. (option, length (filter (\<lambda>v. v = Text option) vals)))
       STAFF_LIKERT_OPTIONS"
  by (simp add: question_counts_def Let_def dict_get_value_counts count_list_dropna
        CAMPUS_REP_LIKERT_ORDER_def STAFF_LIKERT_OPTIONS_def)

lemma strip_option: "option \<in> set STAFF_LIKERT_OPTIONS \<Longrightarrow> strip option = option"
  by (auto simp: STAFF_LIKERT_OPTIONS_def strip_eval_simps isspace_def)

lemma strip_Missing: "strip (str_cell Missing) \<notin> set STAFF_LIKERT_OPTIONS"
  by (simp add: STAFF_LIKERT_OPTIONS_def strip_eval_simps isspace_def)

lemma filter_length_eq_subset:
  "(\<And>v. Q v \<Longrightarrow> P v) \<Longrightarrow> length (filter P vals) = length (filter Q vals) \<Longrightarrow>
   v \<in> set vals \<Longrightarrow> P v \<Longrightarrow> Q v"
proof (induction vals)
  case (Cons a vals)
  have le: "length (filter Q vals) \<le> length (filter P vals)"
    using Cons.prems(1)
    by (induction vals) (auto simp: le_Suc_eq)
  show ?case
  proof (cases "P a")
    case True
    show ?thesis
    proof (cases "Q a")
      case True
      with Cons \<open>P a\<close> show ?thesis by auto
    next
      case False
      with Cons.prems(2) \<open>P a\<close> le show ?thesis by simp
    qed
  next
    case False
    with Cons.prems(1) have "\<not> Q a" by auto
    with Cons False show ?thesis by auto
  qed
qed simp


lemma trimmed_match_of_exact:
  "option \<in> set STAFF_LIKERT_OPTIONS \<Longrightarrow> v = Text option \<Longrightarrow> strip (str_cell v) = option"
  by (simp add: strip_option)

text \<open>
  C2, as amended. On one column of cells the row scan of the staff variant
  (\<open>count_column\<close>: trimmed exact match, first match wins) and the value counting of the
  fixed-questionnaire variant (\<open>question_counts\<close>: \<open>value_counts\<close> after \<open>dropna\<close>, one
  lookup per enumeration value, no trimming) give the same counts over the enumeration
  exactly when no cell of the column is an enumeration value with white space around
  it, that is when every text cell whose trimmed form is an enumeration value already
  equals its trimmed form.
\<close>

theorem counters_agree_iff_no_padded_response:
  "count_column vals = question_counts vals \<longleftrightarrow>
     (\<forall>s. Text s \<in> set vals \<and> strip s \<in> set STAFF_LIKERT_OPTIONS \<longrightarrow> strip s = s)"
proof
  assume eq: "count_column vals = question_counts vals"
  show "\<forall>s. Text s \<in> set vals \<and> strip s \<in> set STAFF_LIKERT_OPTIONS \<longrightarrow> strip s = s"
  proof (intro allI impI)
    fix s
    assume a: "Text s \<in> set vals \<and> strip s \<in> set STAFF_LIKERT_OPTIONS"
    let ?o = "strip s"
    from eq have "map_of (count_column vals) ?o = map_of (question_counts vals) ?o"
      by simp
    with a have len: "length (filter (\<lambda>v. strip (str_cell v) = ?o) vals)
                    = length (filter (\<lambda>v. v = Text ?o) vals)"
      by (simp add: count_column_closed question_counts_closed map_of_map_restrict)
    have "Text s = Text ?o"
      by (rule filter_length_eq_subset
            [where P = "\<lambda>v. strip (str_cell v) = ?o" and Q = "\<lambda>v. v = Text ?o",
             OF trimmed_match_of_exact len])
         (use a in simp_all)
    then show "strip s = s" by simp
  qed
next
  assume c: "\<forall>s. Text s \<in> set vals \<and> strip s \<in> set STAFF_LIKERT_OPTIONS \<longrightarrow> strip s = s"
  have "length (filter (\<lambda>v. strip (str_cell v) = option) vals)
      = length (filter (\<lambda>v. v = Text option) vals)"
    if o: "option \<in> set STAFF_LIKERT_OPTIONS" for option
  proof (rule arg_cong [where f = length], rule filter_cong [OF refl])
    fix v assume v: "v \<in> set vals"
    show "(strip (str_cell v) = option) = (v = Text option)"
    proof (cases v)
      case (Text s)
      with c v o show ?thesis by (auto simp: strip_option)
    next
      case Missing
      with o strip_Missing show ?thesis by auto
    qed
  qed
  then show "count_column vals = question_counts vals"
    by (simp add: count_column_closed question_counts_closed)
qed

text \<open>
  The theorem at a column with two valid responses, a padded free text and a missing
  cell: the two counters agree.
\<close>

theorem counters_agree_iff_no_padded_response_witness:
  "count_column [Text ''Agree'', Text ''n/a '', Missing, Text ''Agree'', Text ''Neutral'']
     = question_counts [Text ''Agree'', Text ''n/a '', Missing, Text ''Agree'', Text ''Neutral'']
   \<and> question_counts [Text ''Agree'', Text ''n/a '', Missing, Text ''Agree'', Text ''Neutral'']
     = [(''Strongly Agree'', 0), (''Agree'', 2), (''Neutral'', 1), (''Disagree'', 0),
        (''Strongly Disagree'', 0)]"
proof -
  let ?vals = "[Text ''Agree'', Text ''n/a '', Missing, Text ''Agree'', Text ''Neutral'']"
  have s: "strip ''Agree'' = ''Agree''" "strip ''Neutral'' = ''Neutral''"
    "strip ''n/a '' = ''n/a''"
    by (simp_all add: strip_eval_simps isspace_def)
  have h: "\<forall>s. Text s \<in> set ?vals \<and> strip s \<in> set STAFF_LIKERT_OPTIONS \<longrightarrow> strip s = s"
    by (auto simp: s STAFF_LIKERT_OPTIONS_def)
  have e: "question_counts ?vals
     = [(''Strongly Agree'', 0), (''Agree'', 2), (''Neutral'', 1), (''Disagree'', 0),
        (''Strongly Disagree'', 0)]"
    by code_simp
  from counters_agree_iff_no_padded_response [of ?vals] h e show ?thesis by blast
qed

text \<open>
  C2 as stated fails on the column with the single cell \<open>"Agree "\<close>: the staff scan
  trims the cell and counts it under \<open>Agree\<close>, the value counting looks up the untrimmed
  string and counts nothing.
\<close>

theorem counters_differ_counterexample:
  "count_column [Text ''Agree '']
     = [(''Strongly Agree'', 0), (''Agree'', 1), (''Neutral'', 0), (''Disagree'', 0),
        (''Strongly Disagree'', 0)]
   \<and> question_counts [Text ''Agree '']
     = [(''Strongly Agree'', 0), (''Agree'', 0), (''Neutral'', 0), (''Disagree'', 0),
        (''Strongly Disagree'', 0)]
   \<and> count_column [Text ''Agree ''] \<noteq> question_counts [Text ''Agree '']"
  by code_simp


section \<open>Properties of header normalisation\<close>


lemma clean_loop_map: "clean_loop cols cleaned = cleaned @ map clean_label cols"
  by (induction cols arbitrary: cleaned) auto

lemma columns_clean_column_names:
  "columns (clean_column_names df) = map clean_label (columns df)"
  by (simp add: clean_column_names_def clean_loop_map)

lemma not_isspace_bracket: "\<not> isspace (CHR ''['')"
  by (simp add: isspace_def)

lemma match_group2_complete:
  "CHR '']'' \<notin> set cat \<Longrightarrow> CHR 0x0A \<notin> set cat \<Longrightarrow>
   match_group2 g2 (cat @ CHR '']'' # rest) = Some (g2 @ cat)"
  by (induction cat arbitrary: g2) auto

lemma match_group2_sound:
  "match_group2 acc s = Some g2 \<Longrightarrow>
   \<exists>cat rest. s = cat @ CHR '']'' # rest \<and> g2 = acc @ cat
      \<and> CHR '']'' \<notin> set cat \<and> CHR 0x0A \<notin> set cat"
proof (induction acc s rule: match_group2.induct)
  case (1 g2)
  then show ?case by simp
next
  case (2 acc c cs)
  show ?case
  proof (cases "c = CHR '']''")
    case True
    with 2 show ?thesis by auto
  next
    case False
    with "2.prems" have n: "c \<noteq> CHR 0x0A" and m: "match_group2 (acc @ [c]) cs = Some g2"
      by (auto split: if_splits)
    from "2.IH" [OF False n m] obtain cat rest where
      "cs = cat @ CHR '']'' # rest" "g2 = (acc @ [c]) @ cat"
      "CHR '']'' \<notin> set cat" "CHR 0x0A \<notin> set cat"
      by blast
    with False n show ?thesis
      by (intro exI [of _ "c # cat"] exI [of _ rest]) simp
  qed
qed

lemma match_space_complete:
  "\<forall>c \<in> set ws. isspace c \<Longrightarrow> match_space (ws @ CHR ''['' # r) = match_group2 [] r"
proof (induction ws)
  case Nil
  then show ?case by (simp add: not_isspace_bracket match_bracket_def)
next
  case (Cons c ws)
  then have "c \<noteq> CHR ''[''" using not_isspace_bracket by auto
  with Cons show ?case
    by (cases "match_group2 [] r") (simp_all add: match_bracket_def)
qed

lemma match_space_sound:
  "match_space s = Some g2 \<Longrightarrow>
   \<exists>ws r. s = ws @ CHR ''['' # r \<and> (\<forall>c \<in> set ws. isspace c) \<and> match_group2 [] r = Some g2"
proof (induction s)
  case Nil
  then show ?case by (simp add: match_bracket_def)
next
  case (Cons c cs)
  show ?case
  proof (cases "isspace c \<and> match_space cs \<noteq> None")
    case True
    with Cons.prems have "match_space cs = Some g2" by auto
    from Cons.IH [OF this] obtain ws r where
      "cs = ws @ CHR ''['' # r" "\<forall>c \<in> set ws. isspace c" "match_group2 [] r = Some g2"
      by blast
    with True show ?thesis
      by (intro exI [of _ "c # ws"] exI [of _ r]) simp
  next
    case False
    with Cons.prems have "match_bracket (c # cs) = Some g2"
      by (auto split: option.splits if_splits)
    then have "c = CHR ''[''" "match_group2 [] cs = Some g2"
      by (auto simp: match_bracket_def split: if_splits)
    then show ?thesis
      by (intro exI [of _ "[]"] exI [of _ cs]) simp
  qed
qed

lemma match_group1_of_space:
  "match_space s = Some g2 \<Longrightarrow> match_group1 g1 s = Some (g1, g2)"
  by (cases s) simp_all

lemma first_occurrence_unique:
  "xs @ a # ys = xs' @ a # ys' \<Longrightarrow> a \<notin> set xs \<Longrightarrow> a \<notin> set xs' \<Longrightarrow> xs = xs' \<and> ys = ys'"
proof (induction xs arbitrary: xs')
  case Nil
  then show ?case by (cases xs') auto
next
  case (Cons x xs)
  then show ?case by (cases xs') auto
qed

lemma match_group1_complete:
  assumes "CHR ''['' \<notin> set name" "CHR 0x0A \<notin> set name" "\<forall>c \<in> set ws. isspace c"
    and "CHR '']'' \<notin> set cat" "CHR 0x0A \<notin> set cat"
  shows "\<exists>g1 sfx. match_group1 acc (name @ ws @ CHR ''['' # cat @ CHR '']'' # rest) = Some (g1, cat)
            \<and> acc @ name = g1 @ sfx \<and> (\<forall>c \<in> set sfx. isspace c)"
  using assms(1,2)
proof (induction name arbitrary: acc)
  case Nil
  have "match_space (ws @ CHR ''['' # cat @ CHR '']'' # rest) = Some cat"
    using match_space_complete [OF assms(3)] match_group2_complete [OF assms(4,5), of "[]"]
    by simp
  from match_group1_of_space [OF this] show ?case by simp
next
  case (Cons c name)
  let ?tail = "name @ ws @ CHR ''['' # cat @ CHR '']'' # rest"
  show ?case
  proof (cases "match_space (c # ?tail)")
    case None
    from Cons.prems have "c \<noteq> CHR 0x0A" by auto
    with None have step: "match_group1 acc (c # ?tail) = match_group1 (acc @ [c]) ?tail"
      by simp
    from Cons.prems have "CHR ''['' \<notin> set name" "CHR 0x0A \<notin> set name" by auto
    from Cons.IH [OF this, of "acc @ [c]"] step show ?thesis by simp
  next
    case (Some g2)
    from match_space_sound [OF Some] obtain ws' r where
      d: "c # ?tail = ws' @ CHR ''['' # r" and w: "\<forall>c \<in> set ws'. isspace c"
      and g: "match_group2 [] r = Some g2"
      by blast
    have n1: "CHR ''['' \<notin> set ((c # name) @ ws)"
      using Cons.prems(1) assms(3) not_isspace_bracket by auto
    have n2: "CHR ''['' \<notin> set ws'" using w not_isspace_bracket by auto
    from d have "((c # name) @ ws) @ CHR ''['' # (cat @ CHR '']'' # rest) = ws' @ CHR ''['' # r"
      by simp
    from first_occurrence_unique [OF this n1 n2]
    have e: "(c # name) @ ws = ws'" "cat @ CHR '']'' # rest = r" by simp_all
    from g e(2) match_group2_complete [OF assms(4,5), of "[]" rest] have "g2 = cat" by simp
    from e(1) w have "\<forall>x \<in> set (c # name). isspace x" by auto
    with Some \<open>g2 = cat\<close> show ?thesis
      by (intro exI [of _ acc] exI [of _ "c # name"]) simp
  qed
qed

lemma match_group1_sound:
  "match_group1 acc s = Some (g1, g2) \<Longrightarrow>
   \<exists>pre ws rest. s = pre @ ws @ CHR ''['' # g2 @ CHR '']'' # rest \<and> g1 = acc @ pre
      \<and> CHR 0x0A \<notin> set pre \<and> (\<forall>c \<in> set ws. isspace c)
      \<and> CHR '']'' \<notin> set g2 \<and> CHR 0x0A \<notin> set g2"
proof (induction s arbitrary: acc)
  case Nil
  then show ?case by (simp add: match_bracket_def)
next
  case (Cons c cs)
  show ?case
  proof (cases "match_space (c # cs)")
    case (Some g)
    with Cons.prems have eq: "g1 = acc" "g = g2" by simp_all
    from match_space_sound [OF Some] obtain ws r where
      d: "c # cs = ws @ CHR ''['' # r" and w: "\<forall>c \<in> set ws. isspace c"
      and g: "match_group2 [] r = Some g"
      by blast
    from match_group2_sound [OF g] obtain cat rest where
      "r = cat @ CHR '']'' # rest" "g = cat" "CHR '']'' \<notin> set cat" "CHR 0x0A \<notin> set cat"
      by auto
    with d w eq show ?thesis
      by (intro exI [of _ "[]"] exI [of _ ws] exI [of _ rest]) simp
  next
    case None
    with Cons.prems have n: "c \<noteq> CHR 0x0A"
      and m: "match_group1 (acc @ [c]) cs = Some (g1, g2)"
      by (auto split: if_splits)
    from Cons.IH [OF m] obtain pre ws rest where
      "cs = pre @ ws @ CHR ''['' # g2 @ CHR '']'' # rest" "g1 = (acc @ [c]) @ pre"
      "CHR 0x0A \<notin> set pre" "\<forall>c \<in> set ws. isspace c"
      "CHR '']'' \<notin> set g2" "CHR 0x0A \<notin> set g2"
      by blast
    with n show ?thesis
      by (intro exI [of _ "c # pre"] exI [of _ ws] exI [of _ rest]) simp
  qed
qed

lemma rstrip_append_space:
  assumes "\<forall>c \<in> set sfx. isspace c"
  shows "rstrip (s @ sfx) = rstrip s"
proof -
  have "dropWhile isspace (rev sfx @ rev s) = dropWhile isspace (rev s)"
    by (rule dropWhile_append2) (use assms in simp)
  then show ?thesis by (simp add: rstrip_def)
qed

lemma strip_append_space:
  assumes "\<forall>c \<in> set sfx. isspace c"
  shows "strip (s @ sfx) = strip s"
proof (cases "\<forall>c \<in> set s. isspace c")
  case True
  with assms have "lstrip (s @ sfx) = []" "lstrip s = []"
    by (simp_all add: lstrip_def)
  then show ?thesis by (simp add: strip_def)
next
  case False
  then have "lstrip (s @ sfx) = lstrip s @ sfx"
    by (auto simp: lstrip_def dropWhile_append1)
  with assms show ?thesis by (simp add: strip_def rstrip_append_space)
qed

lemma clean_label_bracketed:
  assumes "CHR ''['' \<notin> set name" "CHR 0x0A \<notin> set name" "\<forall>c \<in> set ws. isspace c"
    and "CHR '']'' \<notin> set cat" "CHR 0x0A \<notin> set cat"
  shows "clean_label (name @ ws @ ''['' @ cat @ '']'' @ rest) = strip name @ '' - '' @ strip cat"
proof -
  from match_group1_complete [OF assms, of "[]" rest] obtain g1 sfx where
    m: "match_group1 [] (name @ ws @ CHR ''['' # cat @ CHR '']'' # rest) = Some (g1, cat)"
    and e: "name = g1 @ sfx" and w: "\<forall>c \<in> set sfx. isspace c"
    by auto
  from e w have "strip name = strip g1" by (simp add: strip_append_space)
  with m show ?thesis by (simp add: clean_label_def re_match_def)
qed

lemma clean_label_changed:
  assumes "clean_label col \<noteq> col"
  shows "\<exists>name ws cat rest. col = name @ ws @ ''['' @ cat @ '']'' @ rest
           \<and> CHR 0x0A \<notin> set name \<and> (\<forall>c \<in> set ws. isspace c)
           \<and> CHR '']'' \<notin> set cat \<and> CHR 0x0A \<notin> set cat
           \<and> clean_label col = strip name @ '' - '' @ strip cat"
proof -
  from assms obtain g1 g2 where m: "match_group1 [] col = Some (g1, g2)"
    and c: "clean_label col = strip g1 @ '' - '' @ strip g2"
    by (auto simp: clean_label_def re_match_def split: if_splits option.splits)
  from match_group1_sound [OF m] obtain pre ws rest where
    "col = pre @ ws @ CHR ''['' # g2 @ CHR '']'' # rest" "g1 = pre"
    "CHR 0x0A \<notin> set pre" "\<forall>c \<in> set ws. isspace c"
    "CHR '']'' \<notin> set g2" "CHR 0x0A \<notin> set g2"
    by auto
  with c show ?thesis
    by (intro exI [of _ g1] exI [of _ ws] exI [of _ g2] exI [of _ rest]) simp
qed


text \<open>
  C3, as amended. \<open>clean_column_names\<close> replaces the labels by the list of their
  images under \<open>clean_label\<close>, label by label: same length, same order, none dropped,
  and the rows are untouched. A label that begins with a name, optional white space
  and a bracketed category, where the name holds no opening bracket and no line feed
  and the category no closing bracket and no line feed, is rewritten to the trimmed
  name, \<open>" - "\<close> and the trimmed category, whatever follows the closing bracket. A
  label that lacks an opening or a closing bracket is left unchanged. Every label that
  is changed begins with such a name, white space and bracketed category.
\<close>

theorem clean_column_names_rewrites:
  "columns (clean_column_names df) = map clean_label (columns df)
   \<and> length (columns (clean_column_names df)) = length (columns df)
   \<and> rows (clean_column_names df) = rows df
   \<and> (CHR ''['' \<notin> set name \<and> CHR 0x0A \<notin> set name \<and> (\<forall>c \<in> set ws. isspace c)
        \<and> CHR '']'' \<notin> set cat \<and> CHR 0x0A \<notin> set cat
      \<longrightarrow> clean_label (name @ ws @ ''['' @ cat @ '']'' @ rest)
            = strip name @ '' - '' @ strip cat)
   \<and> (CHR ''['' \<notin> set col \<or> CHR '']'' \<notin> set col \<longrightarrow> clean_label col = col)
   \<and> (clean_label col \<noteq> col \<longrightarrow>
        (\<exists>name ws cat rest. col = name @ ws @ ''['' @ cat @ '']'' @ rest
           \<and> CHR 0x0A \<notin> set name \<and> (\<forall>c \<in> set ws. isspace c)
           \<and> CHR '']'' \<notin> set cat \<and> CHR 0x0A \<notin> set cat
           \<and> clean_label col = strip name @ '' - '' @ strip cat))"
proof (intro conjI impI)
  show "columns (clean_column_names df) = map clean_label (columns df)"
    by (rule columns_clean_column_names)
  show "length (columns (clean_column_names df)) = length (columns df)"
    by (simp add: columns_clean_column_names)
  show "rows (clean_column_names df) = rows df"
    by (simp add: clean_column_names_def)
next
  assume "CHR ''['' \<notin> set name \<and> CHR 0x0A \<notin> set name \<and> (\<forall>c \<in> set ws. isspace c)
        \<and> CHR '']'' \<notin> set cat \<and> CHR 0x0A \<notin> set cat"
  then show "clean_label (name @ ws @ ''['' @ cat @ '']'' @ rest)
            = strip name @ '' - '' @ strip cat"
    by (intro clean_label_bracketed) simp_all
next
  assume "CHR ''['' \<notin> set col \<or> CHR '']'' \<notin> set col"
  then show "clean_label col = col"
    by (auto simp: clean_label_def)
next
  assume "clean_label col \<noteq> col"
  then show "\<exists>name ws cat rest. col = name @ ws @ ''['' @ cat @ '']'' @ rest
           \<and> CHR 0x0A \<notin> set name \<and> (\<forall>c \<in> set ws. isspace c)
           \<and> CHR '']'' \<notin> set cat \<and> CHR 0x0A \<notin> set cat
           \<and> clean_label col = strip name @ '' - '' @ strip cat"
    by (rule clean_label_changed)
qed

text \<open>
  The theorem at the header of the specification's scenario A, at a label with white
  space around name and category and text after the bracket, and at a label without
  brackets.
\<close>

theorem clean_column_names_rewrites_witness:
  "columns (clean_column_names
      \<lparr>columns = [''Alice [Communication]'', ''Alice [Punctuality]'', ''Timestamp''],
       rows = [[Text ''Agree'', Text ''Neutral'', Text ''9:00'']]\<rparr>)
     = [''Alice - Communication'', ''Alice - Punctuality'', ''Timestamp'']
   \<and> clean_label (''  Alice'' @ ''  '' @ ''['' @ '' Communication '' @ '']'' @ '' (2024)'')
     = ''Alice - Communication''
   \<and> clean_label ''Timestamp'' = ''Timestamp''
   \<and> clean_label ''Alice [Communication]'' \<noteq> ''Alice [Communication]''"
proof -
  let ?df = "\<lparr>columns = [''Alice [Communication]'', ''Alice [Punctuality]'', ''Timestamp''],
       rows = [[Text ''Agree'', Text ''Neutral'', Text ''9:00'']]\<rparr>"
  note t = clean_column_names_rewrites
    [of ?df "''  Alice''" "''  ''" "'' Communication ''" "'' (2024)''" "''Timestamp''"]
  have h1: "CHR ''['' \<notin> set ''  Alice'' \<and> CHR 0x0A \<notin> set ''  Alice''
        \<and> (\<forall>c \<in> set ''  ''. isspace c)
        \<and> CHR '']'' \<notin> set '' Communication '' \<and> CHR 0x0A \<notin> set '' Communication ''"
    by (simp add: isspace_def)
  have h2: "CHR ''['' \<notin> set ''Timestamp'' \<or> CHR '']'' \<notin> set ''Timestamp''"
    by simp
  have s: "strip ''  Alice'' = ''Alice''" "strip '' Communication '' = ''Communication''"
    by (simp_all add: strip_eval_simps isspace_def)
  have c: "map clean_label (columns ?df)
     = [''Alice - Communication'', ''Alice - Punctuality'', ''Timestamp'']"
    by code_simp
  have d: "clean_label ''Alice [Communication]'' \<noteq> ''Alice [Communication]''"
    by code_simp
  from t h1 h2 have
    "columns (clean_column_names ?df) = map clean_label (columns ?df)"
    "clean_label (''  Alice'' @ ''  '' @ ''['' @ '' Communication '' @ '']'' @ '' (2024)'')
       = strip ''  Alice'' @ '' - '' @ strip '' Communication ''"
    "clean_label ''Timestamp'' = ''Timestamp''"
    by blast+
  with s c d show ?thesis by simp
qed

text \<open>
  C3 as stated fails in both directions. The label \<open>Alice [Comm] (2024)\<close> does not end
  with the bracketed category, yet it is rewritten and loses \<open>(2024)\<close>: the pattern is
  matched at the start of the label only. The label \<open>A[1] [Comm]\<close> is rewritten to
  \<open>A - 1\<close>, from its first pair of brackets. A label whose name holds a line feed has
  the claimed shape and is left unchanged.
\<close>

theorem clean_label_prefix_match_counterexample:
  "clean_label ''Alice [Comm] (2024)'' = ''Alice - Comm''
   \<and> last (strip ''Alice [Comm] (2024)'') \<noteq> CHR '']''
   \<and> clean_label (''A[1]'' @ '' '' @ ''['' @ ''Comm'' @ '']'') = ''A - 1''
   \<and> clean_label (''Alice'' @ [CHR 0x0A] @ ''Smith'' @ '' '' @ ''['' @ ''Comm'' @ '']'')
      = ''Alice'' @ [CHR 0x0A] @ ''Smith'' @ '' '' @ ''['' @ ''Comm'' @ '']''"
  by code_simp

section \<open>Column labels after ingestion\<close>

text \<open>
  C8 at two header rows the code can receive. On the fixed-questionnaire path the
  header row \<open>Q, Q, Q_1\<close> is relabelled \<open>Q, Q_1, Q_1\<close>: the suffixed label collides
  with a raw header that follows. On the staff path the header row is only
  normalised, and two equal headers stay equal. A header repeated three times is
  relabelled with the suffixes \<open>_1\<close> and \<open>_2\<close>.
\<close>

theorem ingestion_labels_collide:
  "columns (get_data [[''Q'', ''Q'', ''Q_1''], [''a'', ''b'', ''c'']]) = [''Q'', ''Q_1'', ''Q_1'']
   \<and> \<not> distinct (columns (get_data [[''Q'', ''Q'', ''Q_1''], [''a'', ''b'', ''c'']]))
   \<and> map_option columns (staff_table [[''Alice [Comm]'', ''Alice [Comm]''], [''Agree'', ''Neutral'']])
      = Some [''Alice - Comm'', ''Alice - Comm'']
   \<and> columns (get_data [[''Q'', ''Q'', ''Q''], [''a'', ''b'', ''c'']]) = [''Q'', ''Q_1'', ''Q_2'']"
  by code_simp


section \<open>Properties of the fixed-questionnaire report\<close>






text \<open>
  C9 at a sheet fetched by \<open>get_data\<close> in which the only row of Alex has a blank
  comment. The sheet returns the blank cell as the empty string, \<open>dropna\<close> keeps it,
  and the Comments section of the stored report is one bulleted paragraph with no
  text: the placeholder line is not written although no comment is non-empty.
\<close>

theorem blank_comment_is_bulleted:
  "fst (generate_docx_report (get_data example_sheet) ''Alex'' ''reports'' empty_world)
     = Inr (Some ''reports/campus_rep_report_Alex.docx'')
   \<and> map_option (drop 5)
        (files (snd (generate_docx_report (get_data example_sheet) ''Alex'' ''reports''
                       empty_world)) ''reports/campus_rep_report_Alex.docx'')
     = Some [Heading ''Comments'' 2, Paragraph [] ListBullet]
   \<and> dropna (column_at (get_data example_sheet) 6) = [[]]"
  by code_simp


end
